theory Spec2Isabelle
  imports Main "HOL-Library.Word"
begin

unbundle bit_operations_syntax

section \<open>Data model of StringHash.h\<close>

text \<open>
  A \<open>char\<close> object is one byte of storage; \<open>uint32_t\<close> is a 32-bit word whose
  arithmetic wraps around. Whether plain \<open>char\<close> is a signed or an unsigned type is
  fixed by the C++ implementation, so it is a parameter of every function that converts
  a character.
\<close>

type_synonym char_t = "8 word"
type_synonym uint32_t = "32 word"

datatype char_kind = SignedChar | UnsignedChar

text \<open>
  \<open>static_cast<uint32_t>(c)\<close> for \<open>c\<close> of type \<open>char\<close>: the value of the character,
  reduced modulo \<open>2^32\<close>. A signed character with the top bit set has a negative value,
  so the conversion sign-extends it.
\<close>

definition char_to_uint32 :: "char_kind \<Rightarrow> char_t \<Rightarrow> uint32_t" where
  "char_to_uint32 ck c = (case ck of SignedChar \<Rightarrow> scast c | UnsignedChar \<Rightarrow> ucast c)"

text \<open>
  A \<open>const char*\<close> is modelled by the list of bytes that can be read from it up to the
  end of the object it points into; \<open>*str++\<close> reads the head and continues with the tail.
  Reading past the end is undefined behaviour, modelled by \<open>None\<close>.
  A \<open>char[N]\<close> array is the list of its \<open>N\<close> elements.
\<close>

type_synonym char_ptr = "char_t list"

section \<open>Run-time hash\<close>

text \<open>One pass of the loop body: \<open>hash ^= value; hash *= 16777619u;\<close>\<close>

definition fnv_step :: "char_kind \<Rightarrow> uint32_t \<Rightarrow> char_t \<Rightarrow> uint32_t" where
  "fnv_step ck hash c = (hash XOR char_to_uint32 ck c) * 16777619"

text \<open>The \<open>for\<close> loop of the three-argument overload, with its counter \<open>byte\<close>.\<close>

function GenerateFNV1aHash_loop ::
  "char_kind \<Rightarrow> char_ptr \<Rightarrow> nat \<Rightarrow> nat \<Rightarrow> uint32_t \<Rightarrow> uint32_t option" where
  "GenerateFNV1aHash_loop ck str len byte hash =
     (if byte < len then
        (case str of
           [] \<Rightarrow> None
         | c # str' \<Rightarrow> GenerateFNV1aHash_loop ck str' len (Suc byte) (fnv_step ck hash c))
      else Some hash)"
  by pat_completeness auto
termination
  by (relation "measure (\<lambda>(ck, str, len, byte, hash). len - byte)") auto

declare GenerateFNV1aHash_loop.simps [simp del]

text \<open>\<open>uint32_t GenerateFNV1aHash(const char* str, size_t length, uint32_t hash)\<close>\<close>

definition GenerateFNV1aHash ::
  "char_kind \<Rightarrow> char_ptr \<Rightarrow> nat \<Rightarrow> uint32_t \<Rightarrow> uint32_t option" where
  "GenerateFNV1aHash ck str len hash = GenerateFNV1aHash_loop ck str len 0 hash"

text \<open>\<open>uint32_t GenerateFNV1aHash(const char* str, size_t length)\<close>\<close>

definition GenerateFNV1aHash_len :: "char_kind \<Rightarrow> char_ptr \<Rightarrow> nat \<Rightarrow> uint32_t option" where
  "GenerateFNV1aHash_len ck str len = GenerateFNV1aHash ck str len 2166136261"

text \<open>
  \<open>strlen\<close> of the C library: the number of characters before the first null character.
  Without a null character in the object the scan runs off its end (undefined behaviour).
\<close>

fun strlen :: "char_ptr \<Rightarrow> nat option" where
  "strlen [] = None"
| "strlen (c # str) = (if c = 0 then Some 0 else map_option Suc (strlen str))"

text \<open>\<open>uint32_t GenerateFNV1aHash(const char* str)\<close>\<close>

definition GenerateFNV1aHash_str :: "char_kind \<Rightarrow> char_ptr \<Rightarrow> uint32_t option" where
  "GenerateFNV1aHash_str ck str =
     (case strlen str of None \<Rightarrow> None | Some len \<Rightarrow> GenerateFNV1aHash_len ck str len)"

section \<open>Compile-time hash\<close>

text \<open>
  \<open>Hash<I>::GenerateHash(str)\<close> for an array \<open>str\<close>: the specialisation \<open>Hash<0u>\<close> ends
  the recursion, \<open>Hash<I>\<close> reads \<open>str[I - 1]\<close>. An index outside the array is not a
  constant expression (and undefined behaviour at run time): \<open>None\<close>.
\<close>

fun Hash_GenerateHash :: "char_kind \<Rightarrow> nat \<Rightarrow> char_t list \<Rightarrow> uint32_t option" where
  "Hash_GenerateHash ck 0 str = Some 2166136261"
| "Hash_GenerateHash ck (Suc i) str =
     (case Hash_GenerateHash ck i str of
        None \<Rightarrow> None
      | Some h \<Rightarrow>
          if i < length str then Some ((h XOR char_to_uint32 ck (str ! i)) * 16777619)
          else None)"

text \<open>
  \<open>HashHelper<const char*>::Generate\<close> and \<open>HashHelper<char [N]>::Generate\<close>. The array
  type \<open>char [N]\<close> exists for \<open>N \<ge> 1\<close> only, so the empty list is no argument of the
  second one.
\<close>

definition HashHelper_ptr_Generate :: "char_kind \<Rightarrow> char_ptr \<Rightarrow> uint32_t option" where
  "HashHelper_ptr_Generate ck str = GenerateFNV1aHash_str ck str"

definition HashHelper_array_Generate :: "char_kind \<Rightarrow> char_t list \<Rightarrow> uint32_t option" where
  "HashHelper_array_Generate ck str =
     (if str = [] then None else Hash_GenerateHash ck (length str - 1) str)"

text \<open>
  \<open>GenerateHash(const T& str)\<close>: the template argument selects the helper, by the type of
  the argument and not by its value.
\<close>

datatype text_input = CharArray "char_t list" | CharPtr char_ptr

fun GenerateHash :: "char_kind \<Rightarrow> text_input \<Rightarrow> uint32_t option" where
  "GenerateHash ck (CharArray str) = HashHelper_array_Generate ck str"
| "GenerateHash ck (CharPtr str) = HashHelper_ptr_Generate ck str"

section \<open>The StringHash class\<close>

record StringHash =
  m_hash :: uint32_t

text \<open>
  The converting constructor, and the accessor \<open>Get\<close>: a non-const member function, so
  it returns its result together with the object as it leaves it.
\<close>

definition StringHash_ctor :: "char_kind \<Rightarrow> text_input \<Rightarrow> StringHash option" where
  "StringHash_ctor ck str = map_option (\<lambda>h. \<lparr>m_hash = h\<rparr>) (GenerateHash ck str)"

definition Get :: "StringHash \<Rightarrow> uint32_t \<times> StringHash" where
  "Get s = (m_hash s, s)"

section \<open>The algorithm as specified\<close>

text \<open>
  The specification describes the hash on numbers: each step replaces the accumulator
  \<open>a\<close> by \<open>((a XOR byte) * 16777619) mod 2^32\<close>. The run-time path is specified as
  the left fold of this step over the bytes, the compile-time path as a recursion over
  the length of the prefix, starting from \<open>2166136261\<close>.
\<close>

definition fnv1a_step_spec :: "nat \<Rightarrow> nat \<Rightarrow> nat" where
  "fnv1a_step_spec a b = ((a XOR b) * 16777619) mod 2 ^ 32"

definition fnv1a_fold_spec :: "nat \<Rightarrow> nat list \<Rightarrow> nat" where
  "fnv1a_fold_spec h bytes = foldl fnv1a_step_spec h bytes"

fun fnv1a_prefix_spec :: "nat list \<Rightarrow> nat \<Rightarrow> nat" where
  "fnv1a_prefix_spec bytes 0 = 2166136261"
| "fnv1a_prefix_spec bytes (Suc i) =
     ((fnv1a_prefix_spec bytes i XOR bytes ! i) * 16777619) mod 2 ^ 32"

text \<open>
  The bytes of the specification: the unsigned value of each character, in \<open>0..255\<close>,
  whatever the signedness of \<open>char\<close>.
\<close>

definition byte_values :: "char_t list \<Rightarrow> nat list" where
  "byte_values str = map unat str"

section \<open>Auxiliary facts\<close>

lemma GenerateFNV1aHash_loop_foldl:
  "len - byte \<le> length str \<Longrightarrow>
   GenerateFNV1aHash_loop ck str len byte hash =
     Some (foldl (fnv_step ck) hash (take (len - byte) str))"
proof (induction str arbitrary: byte hash)
  case Nil
  then show ?case by (simp add: GenerateFNV1aHash_loop.simps)
next
  case (Cons c str)
  show ?case
  proof (cases "byte < len")
    case True
    then obtain k where k: "len - byte = Suc k" "len - Suc byte = k"
      by (metis Suc_diff_Suc)
    with Cons.prems have "len - Suc byte \<le> length str" by simp
    from Cons.IH [OF this] True k show ?thesis
      by (subst GenerateFNV1aHash_loop.simps) simp
  next
    case False
    then show ?thesis by (simp add: GenerateFNV1aHash_loop.simps)
  qed
qed

lemma GenerateFNV1aHash_loop_overrun:
  "length str < len - byte \<Longrightarrow> GenerateFNV1aHash_loop ck str len byte hash = None"
proof (induction str arbitrary: byte hash)
  case Nil
  then show ?case by (simp add: GenerateFNV1aHash_loop.simps)
next
  case (Cons c str)
  then have "byte < len" "length str < len - Suc byte" by simp_all
  with Cons.IH show ?case
    by (subst GenerateFNV1aHash_loop.simps) simp
qed

lemma GenerateFNV1aHash_foldl:
  "len \<le> length str \<Longrightarrow>
   GenerateFNV1aHash ck str len hash = Some (foldl (fnv_step ck) hash (take len str))"
  using GenerateFNV1aHash_loop_foldl [of len 0 str ck hash] by (simp add: GenerateFNV1aHash_def)

lemma GenerateFNV1aHash_overrun:
  "length str < len \<Longrightarrow> GenerateFNV1aHash ck str len hash = None"
  using GenerateFNV1aHash_loop_overrun [of str len 0 ck hash] by (simp add: GenerateFNV1aHash_def)

lemma Hash_GenerateHash_foldl:
  "i \<le> length str \<Longrightarrow>
   Hash_GenerateHash ck i str = Some (foldl (fnv_step ck) 2166136261 (take i str))"
proof (induction i)
  case 0
  show ?case by simp
next
  case (Suc i)
  then have "i < length str" by simp
  with Suc.IH show ?case
    by (simp add: take_Suc_conv_app_nth fnv_step_def)
qed

lemma strlen_takeWhile:
  "0 \<in> set str \<Longrightarrow> strlen str = Some (length (takeWhile (\<lambda>c. c \<noteq> 0) str))"
  by (induction str) auto

lemma strlen_no_terminator: "0 \<notin> set str \<Longrightarrow> strlen str = None"
  by (induction str) auto

lemma fnv_prime_inverse: "(16777619 :: uint32_t) * 899433627 = 1"
  by simp

lemma fnv_step_inj: 
  assumes "fnv_step ck a c = fnv_step ck b c" shows "a = b"
proof -
  let ?v = "char_to_uint32 ck c"
  from assms have "(a XOR ?v) * 16777619 * 899433627 = (b XOR ?v) * 16777619 * 899433627"
    by (simp add: fnv_step_def)
  then have "(a XOR ?v) * (16777619 * 899433627) = (b XOR ?v) * (16777619 * 899433627)"
    by (simp only: mult.assoc)
  then have "a XOR ?v = b XOR ?v"
    by (simp only: fnv_prime_inverse mult_1_right)
  then have "(a XOR ?v) XOR ?v = (b XOR ?v) XOR ?v" by simp
  then show ?thesis by (simp add: xor.assoc)
qed

lemma foldl_fnv_step_inj:
  "foldl (fnv_step ck) a cs = foldl (fnv_step ck) b cs \<Longrightarrow> a = b"
  by (induction cs arbitrary: a b) (auto dest: fnv_step_inj)

lemma unat_fnv_step:
  "unat (fnv_step ck a c) = ((unat a XOR unat (char_to_uint32 ck c)) * 16777619) mod 2 ^ 32"
  by (simp add: fnv_step_def unat_word_ariths unsigned_xor_eq)

lemma unat_foldl_fnv_step:
  "unat (foldl (fnv_step ck) h cs) =
     fnv1a_fold_spec (unat h) (map (\<lambda>c. unat (char_to_uint32 ck c)) cs)"
  by (induction cs arbitrary: h)
    (simp_all add: fnv1a_fold_spec_def fnv1a_step_spec_def unat_fnv_step)

lemma fnv1a_prefix_spec_foldl:
  "i \<le> length bytes \<Longrightarrow>
   fnv1a_prefix_spec bytes i = foldl fnv1a_step_spec 2166136261 (take i bytes)"
  by (induction i) (simp_all add: take_Suc_conv_app_nth fnv1a_step_spec_def)

lemma byte_values_take: "byte_values (take n str) = take n (byte_values str)"
  by (simp add: byte_values_def take_map)

lemma length_byte_values: "length (byte_values str) = length str"
  by (simp add: byte_values_def)

lemma GenerateFNV1aHash_str_foldl:
  assumes "0 \<in> set str"
  shows "GenerateFNV1aHash_str ck str =
     Some (foldl (fnv_step ck) 2166136261 (takeWhile (\<lambda>c. c \<noteq> 0) str))"
proof -
  have "length (takeWhile (\<lambda>c. c \<noteq> 0) str) \<le> length str"
    by (rule length_takeWhile_le)
  moreover have "take (length (takeWhile (\<lambda>c. c \<noteq> 0) str)) str = takeWhile (\<lambda>c. c \<noteq> 0) str"
    by (metis append_eq_conv_conj takeWhile_dropWhile_id)
  ultimately show ?thesis
    using assms
    by (simp add: GenerateFNV1aHash_str_def strlen_takeWhile GenerateFNV1aHash_len_def
        GenerateFNV1aHash_foldl)
qed

lemma sint_char: "sint (c :: char_t) = (if c < 0x80 then uint c else uint c - 256)"
proof -
  have b: "0 \<le> uint c" "uint c < 256" using uint_bounded [of c] by simp_all
  have "bit (uint c) 7 \<longleftrightarrow> 128 \<le> uint c"
  proof
    assume "bit (uint c) 7"
    then have "odd (uint c div 128)" by (simp add: bit_iff_odd)
    then have "uint c div 128 \<noteq> 0" by (metis even_zero)
    with b show "128 \<le> uint c" by arith
  next
    assume "128 \<le> uint c"
    with b have "uint c div 128 = 1" by simp
    then show "bit (uint c) 7" by (simp add: bit_iff_odd)
  qed
  moreover have "take_bit 8 (uint c) = uint c" using b by (simp add: take_bit_int_eq_self)
  ultimately show ?thesis
    by (simp add: sint_uint signed_take_bit_eq_take_bit_minus word_less_alt)
qed

lemma unat_ucast_char: "unat (ucast (c :: char_t) :: uint32_t) = unat c"
proof -
  have "unat c < 2 ^ 8" using unsigned_less [of c] by simp
  then have "unat c < 2 ^ 32" by simp
  then show ?thesis by (simp add: unsigned_ucast_eq take_bit_nat_eq_self)
qed

lemma scast_char_low:
  assumes "(c :: char_t) < 0x80" shows "(scast c :: uint32_t) = ucast c"
proof -
  from assms have "sint c = uint c" by (simp add: sint_char)
  then have "(word_of_int (sint c) :: uint32_t) = word_of_int (uint c)" by (rule arg_cong)
  then show ?thesis by (simp only: scast_eq ucast_eq)
qed

lemma unat_scast_char_high:
  assumes "\<not> (c :: char_t) < 0x80" shows "unat (scast c :: uint32_t) = unat c + 4294967040"
proof -
  have b: "0 \<le> uint c" "uint c < 256" using uint_bounded [of c] by simp_all
  from assms have "sint c = uint c - 256" by (simp add: sint_char)
  then have "(scast c :: uint32_t) = word_of_int (uint c - 256)"
    by (simp only: scast_eq)
  then have "uint (scast c :: uint32_t) = uint (word_of_int (uint c - 256) :: uint32_t)"
    by (rule arg_cong)
  also have "\<dots> = (uint c - 256) mod 2 ^ LENGTH(32)"
    by (rule uint_word_of_int)
  also have "\<dots> = (uint c - 256) mod 2 ^ 32" by simp
  also have "\<dots> = (uint c - 256 + 2 ^ 32) mod 2 ^ 32" by (simp only: mod_add_self2)
  also have "\<dots> = uint c + 4294967040" using b by simp
  finally have "uint (scast c :: uint32_t) = uint c + 4294967040" .
  then have "nat (uint (scast c :: uint32_t)) = nat (uint c + 4294967040)" by (rule arg_cong)
  with b show ?thesis by (simp add: nat_add_distrib)
qed

lemma unat_char_to_uint32:
  "unat (char_to_uint32 ck c) =
     (if ck = SignedChar \<and> \<not> c < 0x80 then unat c + 4294967040 else unat c)"
  by (cases ck)
    (simp_all add: char_to_uint32_def unat_ucast_char scast_char_low unat_scast_char_high)

text \<open>
  Where \<open>char\<close> is unsigned, and for characters below 128 everywhere, the conversion
  yields the unsigned byte value; the paths then compute the specified fold.
\<close>

lemma char_to_uint32_byte_value:
  "ck = UnsignedChar \<or> c < 0x80 \<Longrightarrow> unat (char_to_uint32 ck c) = unat c"
  by (auto simp add: unat_char_to_uint32)

lemma unat_foldl_fnv_step_bytes:
  assumes "ck = UnsignedChar \<or> (\<forall>c \<in> set cs. c < 0x80)"
  shows "unat (foldl (fnv_step ck) h cs) = fnv1a_fold_spec (unat h) (byte_values cs)"
proof -
  from assms have "map (\<lambda>c. unat (char_to_uint32 ck c)) cs = map unat cs"
    by (auto simp add: char_to_uint32_byte_value)
  then show ?thesis by (simp only: unat_foldl_fnv_step byte_values_def)
qed

lemma GenerateFNV1aHash_fold_byte_values:
  assumes "L \<le> length str"
    and "ck = UnsignedChar \<or> (\<forall>c \<in> set (take L str). c < 0x80)"
  shows "map_option unat (GenerateFNV1aHash ck str L h) =
     Some (fnv1a_fold_spec (unat h) (byte_values (take L str)))"
  using assms by (simp add: GenerateFNV1aHash_foldl unat_foldl_fnv_step_bytes)

lemma Hash_GenerateHash_prefix_byte_values:
  assumes "I \<le> length str"
    and "ck = UnsignedChar \<or> (\<forall>c \<in> set (take I str). c < 0x80)"
  shows "map_option unat (Hash_GenerateHash ck I str) =
     Some (fnv1a_prefix_spec (byte_values str) I)"
  using assms
  by (simp add: Hash_GenerateHash_foldl unat_foldl_fnv_step_bytes fnv1a_prefix_spec_foldl
      length_byte_values byte_values_take fnv1a_fold_spec_def)

lemma Hash_GenerateHash_content:
  "Hash_GenerateHash ck (length S) (S @ rest) = Some (foldl (fnv_step ck) 2166136261 S)"
  using Hash_GenerateHash_foldl [of "length S" "S @ rest" ck] by simp

lemma GenerateFNV1aHash_str_content:
  "0 \<notin> set S \<Longrightarrow>
   GenerateFNV1aHash_str ck (S @ 0 # rest) = Some (foldl (fnv_step ck) 2166136261 S)"
proof -
  assume "0 \<notin> set S"
  then have "takeWhile (\<lambda>c. c \<noteq> 0) (S @ 0 # rest) = S"
    by (induction S) auto
  with GenerateFNV1aHash_str_foldl [of "S @ 0 # rest" ck] show ?thesis by simp
qed

lemma length_takeWhile_stops:
  "x \<in> set xs \<Longrightarrow> \<not> P x \<Longrightarrow> length (takeWhile P xs) < length xs"
  by (induction xs) auto

lemma takeWhile_butlast_interior:
  assumes "x \<in> set (butlast xs)" "\<not> P x"
  shows "takeWhile P xs = takeWhile P (butlast xs)"
proof -
  from assms(1) have "xs \<noteq> []" by auto
  then have "xs = butlast xs @ [last xs]" by simp
  then have "takeWhile P xs = takeWhile P (butlast xs @ [last xs])" by simp
  also from assms have "\<dots> = takeWhile P (butlast xs)" by (rule takeWhile_append1)
  finally show ?thesis .
qed

section \<open>Equivalence of the two paths\<close>

text \<open>
  Claim C1, as stated: for every character sequence \<open>S\<close>, held in a \<open>char[N]\<close> array with
  the terminator as last element and presented as a null-terminated pointer,
  \<open>Hash<N-1>::GenerateHash\<close> on the array and \<open>GenerateFNV1aHash\<close> on the pointer return
  the same value. This fails when \<open>S\<close> contains a zero byte: for the array with
  the elements \<open>'a', 0, 'b', 0\<close> the static path folds three characters, the pointer
  overload stops at the first zero.
\<close>

theorem static_dynamic_interior_zero_differ:
  "Hash_GenerateHash SignedChar 3 [0x61, 0, 0x62, 0]
     \<noteq> GenerateFNV1aHash_str SignedChar [0x61, 0, 0x62, 0] \<and>
   Hash_GenerateHash UnsignedChar 3 [0x61, 0, 0x62, 0]
     \<noteq> GenerateFNV1aHash_str UnsignedChar [0x61, 0, 0x62, 0]"
  by code_simp

text \<open>
  Claim C1, amended: for every character sequence \<open>S\<close> without a zero byte, the static path
  on the array \<open>S\<close> plus terminator and the pointer overload on a buffer that starts with
  \<open>S\<close> and a terminator return the same value, and the pointer overload does return.
  With the length \<open>N - 1\<close> passed explicitly, the run-time hash agrees with the static path
  for every \<open>S\<close>, whatever the last array element is.
\<close>

theorem static_equals_dynamic:
  "Hash_GenerateHash ck (length S) (S @ [t]) = GenerateFNV1aHash_len ck (S @ rest) (length S) \<and>
   (0 \<notin> set S \<longrightarrow>
      Hash_GenerateHash ck (length S) (S @ [0]) = GenerateFNV1aHash_str ck (S @ 0 # rest) \<and>
      GenerateFNV1aHash_str ck (S @ 0 # rest) \<noteq> None)"
  by (simp add: Hash_GenerateHash_content GenerateFNV1aHash_str_content
      GenerateFNV1aHash_len_def GenerateFNV1aHash_foldl)

theorem static_equals_dynamic_witness:
  "0 \<notin> set [0x61, 0x62, 0x63 :: char_t] \<and>
   Hash_GenerateHash SignedChar (length [0x61, 0x62, 0x63 :: char_t]) ([0x61, 0x62, 0x63] @ [0])
     = GenerateFNV1aHash_str SignedChar ([0x61, 0x62, 0x63] @ 0 # []) \<and>
   GenerateFNV1aHash_str SignedChar ([0x61, 0x62, 0x63] @ 0 # []) = Some 440920331"
proof -
  have nz: "0 \<notin> set [0x61, 0x62, 0x63 :: char_t]" by simp
  have v: "GenerateFNV1aHash_str SignedChar ([0x61, 0x62, 0x63] @ 0 # []) = Some 440920331"
    by code_simp
  from static_equals_dynamic [of SignedChar "[0x61, 0x62, 0x63]" 0 "[]"] nz v
  show ?thesis by blast
qed

section \<open>The run-time loop against the specified fold\<close>

text \<open>
  Claim C2 says that \<open>GenerateFNV1aHash(str, L, h)\<close> is the left fold over the first \<open>L\<close>
  bytes, from the accumulator \<open>h\<close>, of the step \<open>((a XOR byte) * 16777619) mod 2^32\<close>.
  Where plain \<open>char\<close> is signed the code departs from it on a byte of 128 or more: for the
  one byte \<open>0x80\<close> and the default seed it returns \<open>83079839\<close>, the fold gives
  \<open>2232128415\<close>. Where \<open>char\<close> is unsigned the code is the fold, for every buffer that
  starts with the bytes \<open>bs\<close>, every seed, and the length \<open>L\<close> of \<open>bs\<close>; for \<open>L = 0\<close> it
  returns the seed.
\<close>

theorem GenerateFNV1aHash_fold_high_byte:
  "map_option unat (GenerateFNV1aHash SignedChar [0x80] 1 2166136261) = Some 83079839 \<and>
   fnv1a_fold_spec 2166136261 (byte_values (take 1 [0x80])) = 2232128415 \<and>
   map_option unat (GenerateFNV1aHash UnsignedChar (bs @ rest) (length bs) h) =
     Some (fnv1a_fold_spec (unat h) (byte_values bs)) \<and>
   GenerateFNV1aHash ck str 0 h = Some h"
proof -
  have "GenerateFNV1aHash SignedChar [0x80] 1 2166136261 = Some 83079839"
    by (simp add: GenerateFNV1aHash_def GenerateFNV1aHash_loop.simps fnv_step_def
        char_to_uint32_def)
  then have "map_option unat (GenerateFNV1aHash SignedChar [0x80] 1 2166136261) =
      Some 83079839"
    by simp
  moreover have "fnv1a_fold_spec 2166136261 (byte_values (take 1 [0x80])) = 2232128415"
    by (simp add: fnv1a_fold_spec_def fnv1a_step_spec_def byte_values_def)
  moreover have "map_option unat (GenerateFNV1aHash UnsignedChar (bs @ rest) (length bs) h) =
      Some (fnv1a_fold_spec (unat h) (byte_values bs))"
    using GenerateFNV1aHash_fold_byte_values [of "length bs" "bs @ rest" UnsignedChar h]
    by simp
  moreover have "GenerateFNV1aHash ck str 0 h = Some h"
    by (simp add: GenerateFNV1aHash_foldl)
  ultimately show ?thesis by blast
qed

section \<open>The compile-time recursion against the specified one\<close>

text \<open>
  Claim C3 says that the static path computes the hash of the \<open>N - 1\<close> content characters
  of a \<open>char[N]\<close> array by the recursion of the specification: \<open>2166136261\<close> for the empty
  prefix, \<open>((hash of the prefix of length I - 1) XOR byteAt(I - 1)) * 16777619\<close> modulo
  \<open>2^32\<close> for the prefix of length \<open>I\<close>, entered at depth \<open>N - 1\<close>. The entry point does
  start at depth \<open>N - 1\<close>, and where \<open>char\<close> is unsigned \<open>Hash<I>::GenerateHash\<close> is that
  recursion at every depth within the array. Where plain \<open>char\<close> is signed it departs from
  it on a byte of 128 or more: for the array with the elements \<open>0x80, 0\<close> it returns
  \<open>83079839\<close>, the recursion gives \<open>2232128415\<close>.
\<close>

theorem static_path_high_byte:
  "map_option unat (HashHelper_array_Generate SignedChar [0x80, 0]) = Some 83079839 \<and>
   fnv1a_prefix_spec (byte_values [0x80, 0]) 1 = 2232128415 \<and>
   HashHelper_array_Generate ck (S @ [t]) = Hash_GenerateHash ck (length S) (S @ [t]) \<and>
   map_option unat (Hash_GenerateHash UnsignedChar (length S) (S @ rest)) =
     Some (fnv1a_prefix_spec (byte_values (S @ rest)) (length S))"
proof -
  have "HashHelper_array_Generate SignedChar [0x80, 0] = Some 83079839"
    by (simp add: HashHelper_array_Generate_def char_to_uint32_def)
  then have "map_option unat (HashHelper_array_Generate SignedChar [0x80, 0]) =
      Some 83079839"
    by simp
  moreover have "fnv1a_prefix_spec (byte_values [0x80, 0]) 1 = 2232128415"
    by (simp add: byte_values_def)
  moreover have
    "HashHelper_array_Generate ck (S @ [t]) = Hash_GenerateHash ck (length S) (S @ [t])"
    by (simp add: HashHelper_array_Generate_def)
  moreover have "map_option unat (Hash_GenerateHash UnsignedChar (length S) (S @ rest)) =
      Some (fnv1a_prefix_spec (byte_values (S @ rest)) (length S))"
    using Hash_GenerateHash_prefix_byte_values [of "length S" "S @ rest" UnsignedChar]
    by simp
  ultimately show ?thesis by blast
qed

section \<open>The overloads\<close>

text \<open>
  Claim C4: the two-argument overload \<open>GenerateFNV1aHash(str, length)\<close> is the
  three-argument one with the seed \<open>2166136261\<close>, and the one-argument overload
  \<open>GenerateFNV1aHash(str)\<close> is the two-argument one with the length that \<open>strlen\<close> finds:
  the number of bytes before the first zero byte.
\<close>

theorem overloads_delegate:
  "GenerateFNV1aHash_len ck str L = GenerateFNV1aHash ck str L 2166136261 \<and>
   (0 \<in> set str \<longrightarrow>
      strlen str = Some (length (takeWhile (\<lambda>c. c \<noteq> 0) str)) \<and>
      GenerateFNV1aHash_str ck str =
        GenerateFNV1aHash_len ck str (length (takeWhile (\<lambda>c. c \<noteq> 0) str)) \<and>
      GenerateFNV1aHash_str ck str \<noteq> None)"
  by (simp add: GenerateFNV1aHash_len_def GenerateFNV1aHash_str_def strlen_takeWhile
      GenerateFNV1aHash_foldl length_takeWhile_le)

theorem overloads_delegate_witness:
  "0 \<in> set [0x68, 0x69, 0, 0x21 :: char_t] \<and>
   strlen [0x68, 0x69, 0, 0x21] = Some 2 \<and>
   GenerateFNV1aHash_str UnsignedChar [0x68, 0x69, 0, 0x21] =
     GenerateFNV1aHash_len UnsignedChar [0x68, 0x69, 0, 0x21]
       (length (takeWhile (\<lambda>c. c \<noteq> 0) [0x68, 0x69, 0, 0x21 :: char_t]))"
proof -
  have z: "0 \<in> set [0x68, 0x69, 0, 0x21 :: char_t]" by simp
  have v: "strlen [0x68, 0x69, 0, 0x21] = Some 2" by code_simp
  from overloads_delegate [of UnsignedChar "[0x68, 0x69, 0, 0x21]"] z v
  show ?thesis by blast
qed

section \<open>The value of a character\<close>

text \<open>
  Claim C5 says that both paths combine the hash with the unsigned byte value of the
  character, in the range \<open>0..255\<close>, also for bytes of 128 and more. Where plain \<open>char\<close> is
  signed, \<open>static_cast<uint32_t>\<close> sign-extends such a character: the byte \<open>0x80\<close> enters
  as \<open>0xFFFFFF80\<close>, and both paths return \<open>83079839\<close> for the one-byte string, where the
  algorithm on the byte value \<open>0x80\<close> (and the same code where \<open>char\<close> is unsigned) gives
  \<open>2232128415\<close>.
\<close>

theorem high_byte_sign_extended:
  "char_to_uint32 SignedChar 0x80 = 0xFFFFFF80 \<and>
   GenerateFNV1aHash SignedChar [0x80] 1 2166136261 = Some 83079839 \<and>
   Hash_GenerateHash SignedChar 1 [0x80, 0] = Some 83079839 \<and>
   fnv1a_fold_spec 2166136261 [0x80] = 2232128415 \<and>
   GenerateFNV1aHash UnsignedChar [0x80] 1 2166136261 = Some 2232128415"
  by (simp add: GenerateFNV1aHash_def GenerateFNV1aHash_loop.simps fnv_step_def
      char_to_uint32_def fnv1a_fold_spec_def fnv1a_step_spec_def)

section \<open>The wrapper\<close>

text \<open>
  Claim C6, as stated: a \<open>StringHash\<close> built from a literal array and one built from a
  null-terminated string of the same characters, built at run time, return the same value
  from \<open>Get\<close>. This fails in two ways. For the literal with the elements
  \<open>'x', 0, 'y', 0\<close> and a \<open>const char*\<close> to the same four bytes, the array is hashed over
  three characters and the pointer over one. And a string built at run time in a
  \<open>char[8]\<close> buffer and passed as that buffer is an array argument: for \<open>"abc"\<close> there,
  \<open>Hash<7>\<close> folds the four zero bytes after the characters as well, and the value is
  \<open>4010028731\<close> where the literal \<open>"abc"\<close> gives \<open>440920331\<close>.
\<close>

theorem wrapper_values_differ:
  "map_option (fst \<circ> Get) (StringHash_ctor SignedChar (CharArray [0x78, 0, 0x79, 0]))
     \<noteq> map_option (fst \<circ> Get) (StringHash_ctor SignedChar (CharPtr [0x78, 0, 0x79, 0])) \<and>
   map_option (fst \<circ> Get) (StringHash_ctor UnsignedChar (CharArray [0x78, 0, 0x79, 0]))
     \<noteq> map_option (fst \<circ> Get) (StringHash_ctor UnsignedChar (CharPtr [0x78, 0, 0x79, 0])) \<and>
   map_option (fst \<circ> Get) (StringHash_ctor SignedChar (CharArray [0x61, 0x62, 0x63, 0]))
     = Some 440920331 \<and>
   map_option (fst \<circ> Get)
       (StringHash_ctor SignedChar (CharArray [0x61, 0x62, 0x63, 0, 0, 0, 0, 0]))
     = Some 4010028731"
  by code_simp

text \<open>
  Claim C6, amended: \<open>Get\<close> returns exactly the hash that \<open>GenerateHash\<close> computed at
  construction and leaves the object as it was; and when the characters contain no zero
  byte, the wrapper built from the literal array and the wrapper built from a
  \<open>const char*\<close> that points to the same characters followed by a terminator return the
  same value from \<open>Get\<close>.
\<close>

theorem wrapper_same_value:
  "map_option (fst \<circ> Get) (StringHash_ctor ck inp) = GenerateHash ck inp \<and>
   snd (Get s) = s \<and>
   (0 \<notin> set S \<longrightarrow>
      (\<exists>a b. StringHash_ctor ck (CharArray (S @ [0])) = Some a \<and>
             StringHash_ctor ck (CharPtr (S @ 0 # rest)) = Some b \<and>
             fst (Get a) = fst (Get b)))"
proof -
  have "Hash_GenerateHash ck (length S) (S @ [0]) = Some (foldl (fnv_step ck) 2166136261 S)"
    by (rule Hash_GenerateHash_content)
  then have "GenerateHash ck (CharArray (S @ [0])) = Some (foldl (fnv_step ck) 2166136261 S)"
    by (simp add: HashHelper_array_Generate_def)
  moreover have "0 \<notin> set S \<Longrightarrow>
      GenerateHash ck (CharPtr (S @ 0 # rest)) = Some (foldl (fnv_step ck) 2166136261 S)"
    by (simp add: HashHelper_ptr_Generate_def GenerateFNV1aHash_str_content)
  moreover have "map_option (fst \<circ> Get) (StringHash_ctor ck inp) = GenerateHash ck inp"
    by (simp add: StringHash_ctor_def Get_def option.map_comp comp_def option.map_ident)
  ultimately show ?thesis
    by (simp add: StringHash_ctor_def Get_def)
qed

theorem wrapper_same_value_witness:
  "0 \<notin> set [0x61, 0x62, 0x63 :: char_t] \<and>
   (\<exists>a b. StringHash_ctor SignedChar (CharArray ([0x61, 0x62, 0x63] @ [0])) = Some a \<and>
          StringHash_ctor SignedChar (CharPtr ([0x61, 0x62, 0x63] @ 0 # [])) = Some b \<and>
          fst (Get a) = fst (Get b)) \<and>
   map_option (fst \<circ> Get) (StringHash_ctor SignedChar (CharPtr [0x61, 0x62, 0x63, 0])) =
     Some 440920331"
proof -
  have nz: "0 \<notin> set [0x61, 0x62, 0x63 :: char_t]" by simp
  have v: "map_option (fst \<circ> Get)
      (StringHash_ctor SignedChar (CharPtr [0x61, 0x62, 0x63, 0])) = Some 440920331"
    by code_simp
  from wrapper_same_value [where ck = SignedChar and S = "[0x61, 0x62, 0x63]" and rest = "[]"]
    nz v
  show ?thesis by blast
qed

section \<open>The seed\<close>

text \<open>
  Claim C7: for every byte sequence, every length \<open>L\<close> within it and every seed \<open>h\<close> other
  than \<open>2166136261\<close>, \<open>GenerateFNV1aHash(str, L, h)\<close> differs from the default-seeded
  \<open>GenerateFNV1aHash(str, L)\<close>: for a fixed input the hash is an injective function of the
  seed.
\<close>

theorem seed_injective:
  "L \<le> length str \<Longrightarrow>
   (h \<noteq> 2166136261 \<longrightarrow> GenerateFNV1aHash ck str L h \<noteq> GenerateFNV1aHash_len ck str L) \<and>
   (GenerateFNV1aHash ck str L h1 = GenerateFNV1aHash ck str L h2 \<longleftrightarrow> h1 = h2)"
  by (auto simp add: GenerateFNV1aHash_len_def GenerateFNV1aHash_foldl
      dest: foldl_fnv_step_inj)

theorem seed_injective_witness:
  "(1::nat) \<le> length [0x61 :: char_t] \<and> (0 :: uint32_t) \<noteq> 2166136261 \<and>
   GenerateFNV1aHash UnsignedChar [0x61] 1 0 \<noteq> GenerateFNV1aHash_len UnsignedChar [0x61] 1 \<and>
   GenerateFNV1aHash UnsignedChar [0x61] 1 0 = Some 1627429043 \<and>
   GenerateFNV1aHash_len UnsignedChar [0x61] 1 = Some 3826002220"
proof -
  have le: "(1::nat) \<le> length [0x61 :: char_t]" by simp
  have ne: "(0 :: uint32_t) \<noteq> 2166136261" by simp
  have v: "GenerateFNV1aHash UnsignedChar [0x61] 1 0 = Some 1627429043"
    "GenerateFNV1aHash_len UnsignedChar [0x61] 1 = Some 3826002220"
    by code_simp+
  from seed_injective [OF le, of 0 UnsignedChar] le ne v show ?thesis by blast
qed

section \<open>Chained hashing\<close>

text \<open>
  Claim C8: hashing a concatenation is hashing the second part from the hash of the
  first: for \<open>S1\<close> of length \<open>L1\<close>, \<open>S2\<close> and every seed \<open>h\<close>,
  \<open>GenerateFNV1aHash(S1 ++ S2, L1 + L2, h)\<close> equals
  \<open>GenerateFNV1aHash(S2, L2, GenerateFNV1aHash(S1, L1, h))\<close>, and both return when \<open>L2\<close>
  lies within \<open>S2\<close>.
\<close>

theorem chained_hashing:
  "length S1 = L1 \<Longrightarrow>
   GenerateFNV1aHash ck (S1 @ S2) (L1 + L2) h =
     Option.bind (GenerateFNV1aHash ck S1 L1 h) (GenerateFNV1aHash ck S2 L2) \<and>
   (L2 \<le> length S2 \<longrightarrow> GenerateFNV1aHash ck (S1 @ S2) (L1 + L2) h \<noteq> None)"
proof (cases "L2 \<le> length S2")
  case True
  assume "length S1 = L1"
  with True show ?thesis by (simp add: GenerateFNV1aHash_foldl)
next
  case False
  assume "length S1 = L1"
  with False show ?thesis
    by (simp add: GenerateFNV1aHash_foldl GenerateFNV1aHash_overrun)
qed

theorem chained_hashing_witness:
  "length [0x61, 0x62 :: char_t] = 2 \<and> (1::nat) \<le> length [0x63 :: char_t] \<and>
   GenerateFNV1aHash UnsignedChar ([0x61, 0x62] @ [0x63]) (2 + 1) 2166136261 =
     Option.bind (GenerateFNV1aHash UnsignedChar [0x61, 0x62] 2 2166136261)
       (GenerateFNV1aHash UnsignedChar [0x63] 1) \<and>
   GenerateFNV1aHash UnsignedChar ([0x61, 0x62] @ [0x63]) (2 + 1) 2166136261 \<noteq> None \<and>
   GenerateFNV1aHash UnsignedChar [0x61, 0x62] 2 2166136261 = Some 1294271946 \<and>
   GenerateFNV1aHash UnsignedChar [0x63] 1 1294271946 = Some 440920331"
proof -
  have len: "length [0x61, 0x62 :: char_t] = 2" "(1::nat) \<le> length [0x63 :: char_t]"
    by simp_all
  have v: "GenerateFNV1aHash UnsignedChar [0x61, 0x62] 2 2166136261 = Some 1294271946"
    "GenerateFNV1aHash UnsignedChar [0x63] 1 1294271946 = Some 440920331"
    by code_simp+
  from chained_hashing [OF len(1), of UnsignedChar "[0x63]" 1 2166136261] len v
  show ?thesis by blast
qed

section \<open>Known vector\<close>

text \<open>
  Claim C9: the run-time hash of the three bytes \<open>"abc"\<close> with the default seed is the
  number obtained by applying the algorithm by hand, from \<open>2166136261\<close> through \<open>0x61\<close>,
  \<open>0x62\<close>, \<open>0x63\<close> with \<open>(hash XOR byte) * 16777619 mod 2^32\<close>: it is \<open>440920331\<close>
  (\<open>0x1A47E90B\<close>), whether \<open>char\<close> is signed or not.
\<close>

theorem abc_known_vector:
  "GenerateFNV1aHash_str ck [0x61, 0x62, 0x63, 0] = Some 440920331 \<and>
   GenerateFNV1aHash_len ck [0x61, 0x62, 0x63] 3 = Some 440920331 \<and>
   fnv1a_fold_spec 2166136261 [0x61, 0x62, 0x63] = 440920331 \<and>
   (((((2166136261 XOR 0x61) * 16777619) mod 2 ^ 32 XOR 0x62) * 16777619) mod 2 ^ 32
       XOR 0x63) * 16777619 mod 2 ^ 32 = (440920331 :: nat)"
  by (cases ck)
    (simp_all add: GenerateFNV1aHash_str_def GenerateFNV1aHash_len_def GenerateFNV1aHash_def
      GenerateFNV1aHash_loop.simps fnv_step_def char_to_uint32_def fnv1a_fold_spec_def
      fnv1a_step_spec_def)

section \<open>Interior zero bytes\<close>

text \<open>
  Claim C10: the pointer overload \<open>GenerateFNV1aHash(str)\<close> hashes exactly the bytes before
  the first zero byte of \<open>str\<close>, while \<open>Hash<N-1>::GenerateHash\<close> folds all of the first
  \<open>N - 1\<close> elements of the array, zero bytes included; so for an array with a zero byte
  among its first \<open>N - 1\<close> elements the pointer path works on a proper prefix of what the
  static path works on.
\<close>

theorem pointer_prefix_array_prefix:
  "(0 \<in> set str \<longrightarrow>
      GenerateFNV1aHash_str ck str =
        Some (foldl (fnv_step ck) 2166136261 (takeWhile (\<lambda>c. c \<noteq> 0) str))) \<and>
   (arr \<noteq> [] \<longrightarrow>
      Hash_GenerateHash ck (length arr - 1) arr =
        Some (foldl (fnv_step ck) 2166136261 (butlast arr))) \<and>
   (0 \<in> set (butlast arr) \<longrightarrow>
      takeWhile (\<lambda>c. c \<noteq> 0) arr \<noteq> butlast arr \<and>
      length (takeWhile (\<lambda>c. c \<noteq> 0) arr) < length (butlast arr) \<and>
      takeWhile (\<lambda>c. c \<noteq> 0) arr =
        take (length (takeWhile (\<lambda>c. c \<noteq> 0) arr)) (butlast arr))"
proof (intro conjI impI)
  assume "0 \<in> set str"
  then show "GenerateFNV1aHash_str ck str =
        Some (foldl (fnv_step ck) 2166136261 (takeWhile (\<lambda>c. c \<noteq> 0) str))"
    by (rule GenerateFNV1aHash_str_foldl)
next
  assume "arr \<noteq> []"
  then show "Hash_GenerateHash ck (length arr - 1) arr =
        Some (foldl (fnv_step ck) 2166136261 (butlast arr))"
    by (simp add: Hash_GenerateHash_foldl butlast_conv_take)
next
  assume z: "0 \<in> set (butlast arr)"
  let ?P = "\<lambda>c :: char_t. c \<noteq> 0"
  from z have eq: "takeWhile ?P arr = takeWhile ?P (butlast arr)"
    by (rule takeWhile_butlast_interior) simp
  from z have lt: "length (takeWhile ?P (butlast arr)) < length (butlast arr)"
    by (rule length_takeWhile_stops) simp
  from lt show "length (takeWhile ?P arr) < length (butlast arr)"
    by (simp only: eq)
  then show "takeWhile ?P arr \<noteq> butlast arr" by auto
  show "takeWhile ?P arr = take (length (takeWhile ?P arr)) (butlast arr)"
    by (simp only: eq) (rule takeWhile_eq_take)
qed

theorem pointer_prefix_array_prefix_witness:
  "0 \<in> set [0x61, 0, 0x62, 0 :: char_t] \<and> [0x61, 0, 0x62, 0 :: char_t] \<noteq> [] \<and>
   0 \<in> set (butlast [0x61, 0, 0x62, 0 :: char_t]) \<and>
   GenerateFNV1aHash_str SignedChar [0x61, 0, 0x62, 0] =
     Some (foldl (fnv_step SignedChar) 2166136261
       (takeWhile (\<lambda>c. c \<noteq> 0) [0x61, 0, 0x62, 0])) \<and>
   Hash_GenerateHash SignedChar (length [0x61, 0, 0x62, 0 :: char_t] - 1) [0x61, 0, 0x62, 0] =
     Some (foldl (fnv_step SignedChar) 2166136261 (butlast [0x61, 0, 0x62, 0])) \<and>
   takeWhile (\<lambda>c. c \<noteq> 0) [0x61, 0, 0x62, 0 :: char_t] = [0x61] \<and>
   butlast [0x61, 0, 0x62, 0 :: char_t] = [0x61, 0, 0x62] \<and>
   takeWhile (\<lambda>c. c \<noteq> 0) [0x61, 0, 0x62, 0 :: char_t] \<noteq> butlast [0x61, 0, 0x62, 0]"
proof -
  have h: "0 \<in> set [0x61, 0, 0x62, 0 :: char_t]" "[0x61, 0, 0x62, 0 :: char_t] \<noteq> []"
    "0 \<in> set (butlast [0x61, 0, 0x62, 0 :: char_t])"
    by simp_all
  have v: "takeWhile (\<lambda>c. c \<noteq> 0) [0x61, 0, 0x62, 0 :: char_t] = [0x61]"
    "butlast [0x61, 0, 0x62, 0 :: char_t] = [0x61, 0, 0x62]"
    by simp_all
  from pointer_prefix_array_prefix [of "[0x61, 0, 0x62, 0]" SignedChar "[0x61, 0, 0x62, 0]"]
    h v(1) v(2)
  show ?thesis by blast
qed

end
